theory Spec2Isabelle
  imports Main
begin

section \<open>The Dog record of generated_v1.c\<close>

text \<open>
  The C file declares two structs, one global and four functions. A C \<^verbatim>\<open>char\<close> is a
  \<^typ>\<open>char\<close> (one byte); a \<^verbatim>\<open>char[50]\<close> field is a list of bytes whose length the
  allocation fixes at 50; a \<^verbatim>\<open>const char*\<close> argument is the list of bytes that can be
  read starting at the pointer. Every access that C leaves undefined (a store or a load
  outside the object, a pointer to no record) is a value of \<open>fault\<close>, so that "stays in
  bounds" is the statement that no fault is returned.
\<close>

subsection \<open>Bytes, buffers and C strings\<close>

definition NUL :: char where
  "NUL = CHR 0x00"

definition newline :: char where
  "newline = CHR 0x0A"

datatype fault = OutOfBoundsWrite | OutOfBoundsRead | InvalidPointer | BadFormat

text \<open>\<^verbatim>\<open>buf[i] = c\<close> and \<^verbatim>\<open>buf[i]\<close> on an object of \<open>length buf\<close> bytes.\<close>

definition store :: "char list \<Rightarrow> nat \<Rightarrow> char \<Rightarrow> fault + char list" where
  "store buf i c = (if i < length buf then Inr (buf[i := c]) else Inl OutOfBoundsWrite)"

definition load :: "char list \<Rightarrow> nat \<Rightarrow> fault + char" where
  "load buf i = (if i < length buf then Inr (buf ! i) else Inl OutOfBoundsRead)"

text \<open>The text a buffer holds as a C string: the bytes before the first NUL.\<close>

definition cstr :: "char list \<Rightarrow> string" where
  "cstr buf = takeWhile (\<lambda>c. c \<noteq> NUL) buf"

text \<open>A string literal \<^verbatim>\<open>"..."\<close> is the array of its characters and a terminating NUL.\<close>

definition c_literal :: "string \<Rightarrow> char list" where
  "c_literal s = s @ [NUL]"

subsection \<open>The C library functions the file calls\<close>

text \<open>
  \<^verbatim>\<open>strncpy(dst, src, n)\<close> (ISO C 7.24.2.4): copies bytes of \<open>src\<close> up to the first NUL,
  at most \<open>n\<close> of them, and fills what is left of the \<open>n\<close> bytes with NUL:
  \<^verbatim>\<open>
  for (i = 0; i < n && src[i] != '\0'; i++) dst[i] = src[i];
  for ( ; i < n; i++) dst[i] = '\0';
  \<close>
\<close>

function strncpy_copy :: "char list \<Rightarrow> char list \<Rightarrow> nat \<Rightarrow> nat \<Rightarrow> fault + (char list \<times> nat)" where
  "strncpy_copy dst src n i =
     (if i < n then
        (case load src i of
           Inl e \<Rightarrow> Inl e
         | Inr c \<Rightarrow>
             if c = NUL then Inr (dst, i)
             else (case store dst i c of
                     Inl e \<Rightarrow> Inl e
                   | Inr dst' \<Rightarrow> strncpy_copy dst' src n (Suc i)))
      else Inr (dst, i))"
  by pat_completeness auto
termination
  by (relation "measure (\<lambda>(dst, src, n, i). n - i)") auto

function strncpy_pad :: "char list \<Rightarrow> nat \<Rightarrow> nat \<Rightarrow> fault + char list" where
  "strncpy_pad dst n i =
     (if i < n then
        (case store dst i NUL of
           Inl e \<Rightarrow> Inl e
         | Inr dst' \<Rightarrow> strncpy_pad dst' n (Suc i))
      else Inr dst)"
  by pat_completeness auto
termination
  by (relation "measure (\<lambda>(dst, n, i). n - i)") auto

definition strncpy :: "char list \<Rightarrow> char list \<Rightarrow> nat \<Rightarrow> fault + char list" where
  "strncpy dst src n =
     (case strncpy_copy dst src n 0 of
        Inl e \<Rightarrow> Inl e
      | Inr (dst', i) \<Rightarrow> strncpy_pad dst' n i)"

text \<open>
  \<^verbatim>\<open>strcpy(dst, src)\<close> (ISO C 7.24.2.3): copies \<open>src\<close> up to and including its NUL,
  with no bound of its own:
  \<^verbatim>\<open>
  for (i = 0; (dst[i] = src[i]) != '\0'; i++) ;
  \<close>
\<close>

function strcpy_loop :: "char list \<Rightarrow> char list \<Rightarrow> nat \<Rightarrow> fault + char list" where
  "strcpy_loop dst src i =
     (case load src i of
        Inl e \<Rightarrow> Inl e
      | Inr c \<Rightarrow>
          (case store dst i c of
             Inl e \<Rightarrow> Inl e
           | Inr dst' \<Rightarrow> if c = NUL then Inr dst' else strcpy_loop dst' src (Suc i)))"
  by pat_completeness auto
termination
  by (relation "measure (\<lambda>(dst, src, i). length src - i)")
     (auto simp: load_def split: if_splits)

definition strcpy :: "char list \<Rightarrow> char list \<Rightarrow> fault + char list" where
  "strcpy dst src = strcpy_loop dst src 0"

text \<open>
  \<^verbatim>\<open>printf\<close> with the one conversion the file uses, \<^verbatim>\<open>%s\<close>: the argument is read as
  a C string, which is undefined when the object holds no NUL. Any other conversion is
  \<open>BadFormat\<close>.
\<close>

definition read_cstr :: "char list \<Rightarrow> fault + string" where
  "read_cstr buf = (if NUL \<in> set buf then Inr (cstr buf) else Inl OutOfBoundsRead)"

fun format_s :: "string \<Rightarrow> char list list \<Rightarrow> fault + string" where
  "format_s [] args = Inr []"
| "format_s (c # fmt) args =
     (if c \<noteq> CHR ''%'' then
        (case format_s fmt args of Inl e \<Rightarrow> Inl e | Inr out \<Rightarrow> Inr (c # out))
      else
        (case fmt of
           [] \<Rightarrow> Inl BadFormat
         | k # fmt' \<Rightarrow>
             if k \<noteq> CHR ''s'' then Inl BadFormat
             else (case args of
                     [] \<Rightarrow> Inl BadFormat
                   | a # args' \<Rightarrow>
                       (case read_cstr a of
                          Inl e \<Rightarrow> Inl e
                        | Inr s \<Rightarrow>
                            (case format_s fmt' args' of
                               Inl e \<Rightarrow> Inl e
                             | Inr out \<Rightarrow> Inr (s @ out))))))"

subsection \<open>The structs, the global and the program state\<close>

text \<open>
  \<^verbatim>\<open>typedef struct { char name[50]; } Animal;\<close>
  \<^verbatim>\<open>typedef struct { Animal base; char secret[50]; } Dog;\<close>
\<close>

record Animal =
  name :: "char list"

record Dog =
  base :: Animal
  secret :: "char list"

definition sizeof_name :: nat where
  "sizeof_name = 50"

definition sizeof_secret :: nat where
  "sizeof_secret = 50"

type_synonym addr = nat

text \<open>
  The state the functions act on: the records that live at allocated addresses, the
  global variable \<^verbatim>\<open>Dog_species\<close> (a pointer to a string literal, held here as the bytes
  it points to) and what has been written to standard output.
\<close>

record world =
  heap :: "addr \<rightharpoonup> Dog"
  Dog_species :: "char list"
  stdout :: string

text \<open>\<^verbatim>\<open>const char* Dog_species = "Canis familiaris";\<close> at program start.\<close>

definition world0 :: world where
  "world0 = \<lparr>heap = Map.empty, Dog_species = c_literal ''Canis familiaris'', stdout = []\<rparr>"

text \<open>
  What one call of \<^verbatim>\<open>malloc(sizeof(Dog))\<close> answers is an input of the model: \<open>None\<close>
  for NULL, or the address of the new block with the bytes it happens to hold, byte \<open>k\<close>
  of the block being \<open>g k\<close>. The block is laid out as the struct: \<open>name\<close> at offsets
  0 to 49, \<open>secret\<close> at 50 to 99.
\<close>

type_synonym alloc = "(addr \<times> (nat \<Rightarrow> char)) option"

definition uninit :: "(nat \<Rightarrow> char) \<Rightarrow> Dog" where
  "uninit g = \<lparr>base = \<lparr>name = map g [0..<sizeof_name]\<rparr>,
               secret = map g [sizeof_name..<sizeof_name + sizeof_secret]\<rparr>"

definition printf :: "string \<Rightarrow> char list list \<Rightarrow> world \<Rightarrow> fault + world" where
  "printf fmt args w =
     (case format_s fmt args of
        Inl e \<Rightarrow> Inl e
      | Inr out \<Rightarrow> Inr (w\<lparr>stdout := stdout w @ out\<rparr>))"

subsection \<open>The four functions\<close>

definition Dog_new :: "alloc \<Rightarrow> char list \<Rightarrow> world \<Rightarrow> fault + (addr option \<times> world)" where
  "Dog_new a name_arg w =
     (case a of
        None \<Rightarrow> Inr (None, w)
      | Some (p, g) \<Rightarrow>
          (let d = uninit g in
           case strncpy (name (base d)) name_arg (sizeof_name - 1) of
             Inl e \<Rightarrow> Inl e
           | Inr nm \<Rightarrow>
               (case store nm (sizeof_name - 1) NUL of
                  Inl e \<Rightarrow> Inl e
                | Inr nm' \<Rightarrow>
                    (case strcpy (secret d) (c_literal ''dog-secret'') of
                       Inl e \<Rightarrow> Inl e
                     | Inr sc \<Rightarrow>
                         Inr (Some p,
                              w\<lparr>heap := (heap w)(p \<mapsto> \<lparr>base = \<lparr>name = nm'\<rparr>, secret = sc\<rparr>)\<rparr>)))))"

definition Dog_speak :: "addr \<Rightarrow> world \<Rightarrow> fault + world" where
  "Dog_speak p w =
     (case heap w p of
        None \<Rightarrow> Inl InvalidPointer
      | Some d \<Rightarrow> printf (''%s says: woof!'' @ [newline]) [name (base d)] w)"

text \<open>The value returned is the \<open>secret\<close> array the returned pointer points into.\<close>

definition Dog_getSecret :: "addr \<Rightarrow> world \<Rightarrow> fault + (char list \<times> world)" where
  "Dog_getSecret p w =
     (case heap w p of
        None \<Rightarrow> Inl InvalidPointer
      | Some d \<Rightarrow> Inr (secret d, w))"

definition dog_print :: "addr \<Rightarrow> world \<Rightarrow> fault + world" where
  "dog_print p w =
     (case heap w p of
        None \<Rightarrow> Inl InvalidPointer
      | Some d \<Rightarrow>
          printf (''[Dog] %s (species=%s)'' @ [newline]) [name (base d), Dog_species w] w)"

subsection \<open>A client: any sequence of calls\<close>

text \<open>
  The file has no \<^verbatim>\<open>main\<close>. A client is a list of calls of the four functions, each
  \<open>New\<close> with the answer \<^verbatim>\<open>malloc\<close> gives it; \<open>run\<close> makes the calls in order and
  stops at the first fault.
\<close>

datatype call = New alloc "char list" | Speak addr | GetSecret addr | Print addr

fun step :: "call \<Rightarrow> world \<Rightarrow> fault + world" where
  "step (New a name_arg) w =
     (case Dog_new a name_arg w of Inl e \<Rightarrow> Inl e | Inr (r, w') \<Rightarrow> Inr w')"
| "step (Speak p) w = Dog_speak p w"
| "step (GetSecret p) w =
     (case Dog_getSecret p w of Inl e \<Rightarrow> Inl e | Inr (r, w') \<Rightarrow> Inr w')"
| "step (Print p) w = dog_print p w"

fun run :: "call list \<Rightarrow> world \<Rightarrow> fault + world" where
  "run [] w = Inr w"
| "run (c # cs) w = (case step c w of Inl e \<Rightarrow> Inl e | Inr w' \<Rightarrow> run cs w')"

text \<open>
  What C promises of \<^verbatim>\<open>malloc\<close>: the block it returns is no object that is still
  alive. A call other than \<open>New\<close>, and a \<open>New\<close> that gets NULL, allocate nothing.
\<close>

fun malloc_fresh :: "call \<Rightarrow> world \<Rightarrow> bool" where
  "malloc_fresh (New (Some (p, g)) name_arg) w = (heap w p = None)"
| "malloc_fresh c w = True"

fun fresh_run :: "call list \<Rightarrow> world \<Rightarrow> bool" where
  "fresh_run [] w = True"
| "fresh_run (c # cs) w =
     (malloc_fresh c w \<and> (case step c w of Inl e \<Rightarrow> True | Inr w' \<Rightarrow> fresh_run cs w'))"

text \<open>
  The property the proofs carry along every run: the global still holds its literal, and
  every record in the heap has a terminated name and the secret text.
\<close>

definition world_inv :: "world \<Rightarrow> bool" where
  "world_inv w \<longleftrightarrow>
     Dog_species w = c_literal ''Canis familiaris'' \<and>
     (\<forall>p d. heap w p = Some d \<longrightarrow>
        NUL \<in> set (name (base d)) \<and> cstr (secret d) = ''dog-secret'')"

section \<open>Verification\<close>

subsection \<open>C strings\<close>

text \<open>The loop equations recurse without a guard on the left: unfold them one step at a time.\<close>

declare strncpy_copy.simps [simp del] strncpy_pad.simps [simp del] strcpy_loop.simps [simp del]

lemma length_cstr_le: "length (cstr buf) \<le> length buf"
  by (simp add: cstr_def length_takeWhile_le)

lemma NUL_in_iff: "NUL \<in> set buf \<longleftrightarrow> length (cstr buf) < length buf"
  by (induction buf) (auto simp: cstr_def)

lemma nth_cstr_end: "NUL \<in> set buf \<Longrightarrow> buf ! length (cstr buf) = NUL"
  by (induction buf) (auto simp: cstr_def)

lemma nth_before_NUL: "i < length (cstr buf) \<Longrightarrow> buf ! i \<noteq> NUL"
proof (induction buf arbitrary: i)
  case Nil
  then show ?case by (simp add: cstr_def)
next
  case (Cons c buf)
  then show ?case
    by (cases i) (auto simp: cstr_def split: if_splits)
qed

lemma take_cstr: "m \<le> length (cstr buf) \<Longrightarrow> take m (cstr buf) = take m buf"
proof (induction buf arbitrary: m)
  case Nil
  then show ?case by (simp add: cstr_def)
next
  case (Cons c buf)
  then show ?case
    by (cases m) (auto simp: cstr_def split: if_splits)
qed

lemma cstr_append_NUL: "NUL \<notin> set s \<Longrightarrow> cstr (s @ NUL # r) = s"
  by (induction s) (auto simp: cstr_def)

lemma cstr_no_NUL: "NUL \<notin> set (cstr buf)"
  by (induction buf) (auto simp: cstr_def)

subsection \<open>What the library loops compute\<close>

lemma strncpy_pad_eq:
  "i \<le> n \<Longrightarrow> n \<le> length dst \<Longrightarrow>
   strncpy_pad dst n i = Inr (take i dst @ replicate (n - i) NUL @ drop n dst)"
proof (induction dst n i rule: strncpy_pad.induct)
  case (1 dst n i)
  show ?case
  proof (cases "i < n")
    case False
    with "1.prems" show ?thesis
      by (subst strncpy_pad.simps) simp
  next
    case True
    with "1.prems" have st: "store dst i NUL = Inr (dst[i := NUL])"
      by (simp add: store_def)
    have "strncpy_pad dst n i = strncpy_pad (dst[i := NUL]) n (Suc i)"
      using True st by (subst strncpy_pad.simps) simp
    also have "\<dots> = Inr (take (Suc i) (dst[i := NUL]) @ replicate (n - Suc i) NUL
                      @ drop n (dst[i := NUL]))"
      using "1.IH" [OF True st] True "1.prems" by simp
    also have "take (Suc i) (dst[i := NUL]) = take i dst @ [NUL]"
      using True "1.prems" by (simp add: take_Suc_conv_app_nth)
    also have "drop n (dst[i := NUL]) = drop n dst"
      using True by simp
    also have "(take i dst @ [NUL]) @ replicate (n - Suc i) NUL @ drop n dst
             = take i dst @ replicate (n - i) NUL @ drop n dst"
      using True by (simp add: Suc_diff_Suc replicate_Suc [symmetric] del: replicate_Suc)
    finally show ?thesis .
  qed
qed

lemma strncpy_copy_eq:
  "i \<le> min n (length (cstr src)) \<Longrightarrow> min n (length (cstr src)) \<le> length dst \<Longrightarrow>
   NUL \<in> set src \<or> n \<le> length src \<Longrightarrow>
   strncpy_copy dst src n i =
     Inr (take i dst @ drop i (take n (cstr src)) @ drop (min n (length (cstr src))) dst,
          min n (length (cstr src)))"
proof (induction dst src n i rule: strncpy_copy.induct)
  case (1 dst src n i)
  let ?m = "min n (length (cstr src))"
  show ?case
  proof (cases "i < ?m")
    case True
    then have i_n: "i < n" and i_k: "i < length (cstr src)" by simp_all
    have i_src: "i < length src"
      using i_k length_cstr_le [of src] by simp
    have ld: "load src i = Inr (src ! i)"
      using i_src by (simp add: load_def)
    have nz: "src ! i \<noteq> NUL"
      using i_k by (rule nth_before_NUL)
    have i_dst: "i < length dst"
      using True "1.prems"(2) by (rule less_le_trans)
    have st: "store dst i (src ! i) = Inr (dst[i := src ! i])"
      using i_dst by (simp add: store_def)
    have "strncpy_copy dst src n i = strncpy_copy (dst[i := src ! i]) src n (Suc i)"
      using i_n ld nz st by (subst strncpy_copy.simps) simp
    also have "\<dots> = Inr (take (Suc i) (dst[i := src ! i]) @ drop (Suc i) (take n (cstr src))
                        @ drop ?m (dst[i := src ! i]), ?m)"
      using "1.IH" [OF i_n ld nz st] True "1.prems" by simp
    also have "take (Suc i) (dst[i := src ! i]) = take i dst @ [src ! i]"
      using i_dst by (simp add: take_Suc_conv_app_nth)
    also have "drop ?m (dst[i := src ! i]) = drop ?m dst"
      using True by simp
    also have "(take i dst @ [src ! i]) @ drop (Suc i) (take n (cstr src)) @ drop ?m dst
             = take i dst @ drop i (take n (cstr src)) @ drop ?m dst"
    proof -
      have "take n (cstr src) ! i = src ! i"
        using i_n i_k take_cstr [of "Suc i" src]
        by (metis Suc_leI lessI nth_take)
      moreover have "i < length (take n (cstr src))"
        using i_n i_k by simp
      ultimately have "drop i (take n (cstr src)) = src ! i # drop (Suc i) (take n (cstr src))"
        by (metis Cons_nth_drop_Suc)
      then show ?thesis by simp
    qed
    finally show ?thesis .
  next
    case False
    with "1.prems"(1) have im: "i = ?m" by linarith
    have tl: "drop i (take n (cstr src)) = []"
      using im by simp
    show ?thesis
    proof (cases "i < n")
      case False
      then show ?thesis using im tl
        by (subst strncpy_copy.simps) simp
    next
      case True
      with im have ik: "i = length (cstr src)" by simp
      with True "1.prems"(3) have nul: "NUL \<in> set src"
        by (auto simp: NUL_in_iff)
      then have ld: "load src i = Inr NUL"
        using ik nth_cstr_end [OF nul] by (simp add: load_def NUL_in_iff)
      show ?thesis
        using True ld im tl by (subst strncpy_copy.simps) simp
    qed
  qed
qed

lemma strncpy_eq:
  assumes "n \<le> length dst" and "NUL \<in> set src \<or> n \<le> length src"
  shows "strncpy dst src n =
           Inr (take n (cstr src) @ replicate (n - length (cstr src)) NUL @ drop n dst)"
proof -
  let ?m = "min n (length (cstr src))"
  let ?d = "take n (cstr src) @ drop ?m dst"
  have c: "strncpy_copy dst src n 0 = Inr (?d, ?m)"
    using strncpy_copy_eq [of 0 n src dst] assms by simp
  have len: "length ?d = length dst"
    using assms(1) by simp
  have p: "strncpy_pad ?d n ?m = Inr (take ?m ?d @ replicate (n - ?m) NUL @ drop n ?d)"
    using strncpy_pad_eq [of ?m n ?d] assms(1) len by simp
  have t: "take ?m ?d = take n (cstr src)"
    by (simp add: min_def)
  have d: "drop n ?d = drop n dst"
    using assms(1) by (simp add: min_def)
  have r: "n - ?m = n - length (cstr src)"
    by simp
  show ?thesis
    unfolding strncpy_def c using p t d r by simp
qed

lemma strcpy_loop_eq:
  "NUL \<in> set src \<Longrightarrow> length (cstr src) < length dst \<Longrightarrow> i \<le> length (cstr src) \<Longrightarrow>
   strcpy_loop dst src i =
     Inr (take i dst @ drop i (cstr src) @ NUL # drop (Suc (length (cstr src))) dst)"
proof (induction dst src i rule: strcpy_loop.induct)
  case (1 dst src i)
  let ?k = "length (cstr src)"
  have k_src: "?k < length src"
    using "1.prems"(1) by (simp add: NUL_in_iff)
  then have ld: "load src i = Inr (src ! i)"
    using "1.prems"(3) by (simp add: load_def)
  have st: "store dst i (src ! i) = Inr (dst[i := src ! i])"
    using "1.prems" by (simp add: store_def)
  show ?case
  proof (cases "i < ?k")
    case False
    with "1.prems" have ik: "i = ?k" by simp
    then have z: "src ! i = NUL"
      using nth_cstr_end [OF "1.prems"(1)] by simp
    have "strcpy_loop dst src i = Inr (dst[i := NUL])"
      using ld st z by (subst strcpy_loop.simps) simp
    moreover have "dst[i := NUL] = take i dst @ NUL # drop (Suc i) dst"
      using "1.prems"(2) ik by (simp add: upd_conv_take_nth_drop)
    ultimately show ?thesis using ik by simp
  next
    case True
    then have nz: "src ! i \<noteq> NUL" by (rule nth_before_NUL)
    have "strcpy_loop dst src i = strcpy_loop (dst[i := src ! i]) src (Suc i)"
      using ld st nz by (subst strcpy_loop.simps) simp
    also have "\<dots> = Inr (take (Suc i) (dst[i := src ! i]) @ drop (Suc i) (cstr src)
                        @ NUL # drop (Suc ?k) (dst[i := src ! i]))"
      using "1.IH" [OF ld st nz] True "1.prems" by simp
    also have "take (Suc i) (dst[i := src ! i]) = take i dst @ [src ! i]"
      using True "1.prems" by (simp add: take_Suc_conv_app_nth)
    also have "drop (Suc ?k) (dst[i := src ! i]) = drop (Suc ?k) dst"
      using True by simp
    also have "(take i dst @ [src ! i]) @ drop (Suc i) (cstr src) @ NUL # drop (Suc ?k) dst
             = take i dst @ drop i (cstr src) @ NUL # drop (Suc ?k) dst"
    proof -
      have "cstr src ! i = src ! i"
        using True take_cstr [of "Suc i" src]
        by (metis Suc_leI lessI nth_take)
      then have "drop i (cstr src) = src ! i # drop (Suc i) (cstr src)"
        using True by (metis Cons_nth_drop_Suc)
      then show ?thesis by simp
    qed
    finally show ?thesis .
  qed
qed

lemma strcpy_eq:
  "NUL \<in> set src \<Longrightarrow> length (cstr src) < length dst \<Longrightarrow>
   strcpy dst src = Inr (cstr src @ NUL # drop (Suc (length (cstr src))) dst)"
  using strcpy_loop_eq [of src dst 0] by (simp add: strcpy_def)

subsection \<open>Construction\<close>

lemma length_name_uninit: "length (name (base (uninit g))) = 50"
  by (simp add: uninit_def sizeof_name_def)

lemma length_secret_uninit: "length (secret (uninit g)) = 50"
  by (simp add: uninit_def sizeof_name_def sizeof_secret_def)

lemma NUL_in_c_literal: "NUL \<in> set (c_literal s)"
  by (simp add: c_literal_def)

lemma cstr_dog_secret: "cstr (c_literal ''dog-secret'') = ''dog-secret''"
  by (simp add: c_literal_def cstr_def NUL_def)

lemma cstr_species: "cstr (c_literal ''Canis familiaris'') = ''Canis familiaris''"
  by (simp add: c_literal_def cstr_def NUL_def)

lemma strcpy_dog_secret:
  assumes "11 \<le> length buf"
  shows "strcpy buf (c_literal ''dog-secret'') = Inr (c_literal ''dog-secret'' @ drop 11 buf)"
proof -
  let ?L = "c_literal ''dog-secret''"
  have k: "Suc (length (cstr ?L)) = 11"
    by (simp add: cstr_dog_secret)
  then have "length (cstr ?L) < length buf"
    using assms by linarith
  then have "strcpy buf ?L = Inr (cstr ?L @ NUL # drop (Suc (length (cstr ?L))) buf)"
    using NUL_in_c_literal by (rule strcpy_eq [rotated])
  then have "strcpy buf ?L = Inr (cstr ?L @ NUL # drop 11 buf)"
    by (simp only: k)
  then have "strcpy buf ?L = Inr (''dog-secret'' @ NUL # drop 11 buf)"
    by (simp only: cstr_dog_secret)
  moreover have "?L @ drop 11 buf = ''dog-secret'' @ NUL # drop 11 buf"
    by (simp only: c_literal_def append_assoc append_Cons append_Nil)
  ultimately show ?thesis by (simp only:)
qed

lemma name_after_copy:
  assumes "length buf = 50" and "NUL \<in> set src \<or> 49 \<le> length src"
  shows "strncpy buf src 49 =
           Inr (take 49 (cstr src) @ replicate (49 - length (cstr src)) NUL @ drop 49 buf)"
    and "store (take 49 (cstr src) @ replicate (49 - length (cstr src)) NUL @ drop 49 buf) 49 NUL
           = Inr (take 49 (cstr src) @ replicate (49 - length (cstr src)) NUL @ [NUL])"
proof -
  show "strncpy buf src 49 =
           Inr (take 49 (cstr src) @ replicate (49 - length (cstr src)) NUL @ drop 49 buf)"
    using strncpy_eq [of 49 buf src] assms by simp
  let ?pre = "take 49 (cstr src) @ replicate (49 - length (cstr src)) NUL"
  have l: "length ?pre = 49" by simp
  obtain c where d: "drop 49 buf = [c]"
    using assms(1) by (cases "drop 49 buf") (auto simp: length_Suc_conv dest: arg_cong [where f = length])
  have "(?pre @ [c])[49 := NUL] = ?pre @ [NUL]"
    using l by (metis list_update_length)
  then show "store (take 49 (cstr src) @ replicate (49 - length (cstr src)) NUL @ drop 49 buf) 49 NUL
           = Inr (take 49 (cstr src) @ replicate (49 - length (cstr src)) NUL @ [NUL])"
    using l d by (simp add: store_def)
qed

lemma Dog_new_None: "Dog_new None src w = Inr (None, w)"
  by (simp add: Dog_new_def)

lemma Dog_new_Some:
  assumes "NUL \<in> set src \<or> 49 \<le> length src"
  shows "Dog_new (Some (p, g)) src w =
           Inr (Some p,
                w\<lparr>heap := (heap w)(p \<mapsto>
                   \<lparr>base = \<lparr>name = take 49 (cstr src) @ replicate (49 - length (cstr src)) NUL @ [NUL]\<rparr>,
                    secret = c_literal ''dog-secret'' @ drop 11 (secret (uninit g))\<rparr>)\<rparr>)"
proof -
  note a = name_after_copy [OF length_name_uninit assms, of g]
  have c: "strcpy (secret (uninit g)) (c_literal ''dog-secret'')
             = Inr (c_literal ''dog-secret'' @ drop 11 (secret (uninit g)))"
    by (rule strcpy_dog_secret) (simp add: length_secret_uninit)
  show ?thesis
    unfolding Dog_new_def by (simp add: Let_def sizeof_name_def a c)
qed

subsection \<open>The four functions on a valid record\<close>

lemma format_speak:
  "NUL \<in> set nm \<Longrightarrow>
   format_s (''%s says: woof!'' @ [newline]) [nm] = Inr (cstr nm @ '' says: woof!'' @ [newline])"
  by (simp add: read_cstr_def newline_def)

lemma format_print:
  "NUL \<in> set nm \<Longrightarrow> NUL \<in> set sp \<Longrightarrow>
   format_s (''[Dog] %s (species=%s)'' @ [newline]) [nm, sp]
     = Inr (''[Dog] '' @ cstr nm @ '' (species='' @ cstr sp @ '')'' @ [newline])"
  by (simp add: read_cstr_def newline_def)

lemma printf_frame:
  "printf fmt args w = Inr w' \<Longrightarrow> heap w' = heap w \<and> Dog_species w' = Dog_species w"
  by (auto simp: printf_def split: sum.splits)

lemma Dog_speak_eq:
  assumes "heap w p = Some d" and "NUL \<in> set (name (base d))"
  shows "Dog_speak p w =
           Inr (w\<lparr>stdout := stdout w @ cstr (name (base d)) @ '' says: woof!'' @ [newline]\<rparr>)"
  unfolding Dog_speak_def printf_def
  by (simp only: assms(1) option.case format_speak [OF assms(2)] sum.case)

lemma dog_print_eq:
  assumes "heap w p = Some d" and "NUL \<in> set (name (base d))" and "NUL \<in> set (Dog_species w)"
  shows "dog_print p w =
           Inr (w\<lparr>stdout := stdout w @ ''[Dog] '' @ cstr (name (base d)) @ '' (species=''
                               @ cstr (Dog_species w) @ '')'' @ [newline]\<rparr>)"
  unfolding dog_print_def printf_def
  by (simp only: assms(1) option.case format_print [OF assms(2,3)] sum.case)

lemma Dog_getSecret_eq: "heap w p = Some d \<Longrightarrow> Dog_getSecret p w = Inr (secret d, w)"
  by (simp add: Dog_getSecret_def)

text \<open>What a construction that returns has done, whatever the argument.\<close>

lemma Dog_new_result:
  assumes "Dog_new a src w = Inr (r, w')"
  shows "(a = None \<and> r = None \<and> w' = w) \<or>
         (\<exists>p g nm. a = Some (p, g) \<and> r = Some p \<and> 49 < length nm \<and>
            w' = w\<lparr>heap := (heap w)(p \<mapsto>
                   \<lparr>base = \<lparr>name = nm[49 := NUL]\<rparr>,
                    secret = c_literal ''dog-secret'' @ drop 11 (secret (uninit g))\<rparr>)\<rparr>)"
proof (cases a)
  case None
  with assms show ?thesis by (simp add: Dog_new_def)
next
  case (Some pg)
  obtain p g where pg: "pg = (p, g)" by (cases pg)
  have c: "strcpy (secret (uninit g)) (c_literal ''dog-secret'')
             = Inr (c_literal ''dog-secret'' @ drop 11 (secret (uninit g)))"
    by (rule strcpy_dog_secret) (simp add: length_secret_uninit)
  from assms Some pg obtain nm where
    nm: "strncpy (name (base (uninit g))) src 49 = Inr nm" and
    st: "49 < length nm" and
    w': "r = Some p"
        "w' = w\<lparr>heap := (heap w)(p \<mapsto>
                   \<lparr>base = \<lparr>name = nm[49 := NUL]\<rparr>,
                    secret = c_literal ''dog-secret'' @ drop 11 (secret (uninit g))\<rparr>)\<rparr>"
    by (auto simp: Dog_new_def Let_def sizeof_name_def c store_def split: sum.splits if_splits)
  show ?thesis
    using Some pg st w' by blast
qed

subsection \<open>What holds in every state a client can reach\<close>

lemma cstr_secret_field: "cstr (c_literal ''dog-secret'' @ rest) = ''dog-secret''"
  by (simp add: c_literal_def cstr_def NUL_def)

lemma inv_world0: "world_inv world0"
  by (simp add: world_inv_def world0_def)

lemma Dog_new_inv:
  assumes "world_inv w" and "Dog_new a src w = Inr (r, w')"
  shows "world_inv w'"
  using Dog_new_result [OF assms(2)] assms(1)
  by (auto simp: world_inv_def cstr_secret_field set_update_memI split: if_splits)

lemma step_species: "step c w = Inr w' \<Longrightarrow> Dog_species w' = Dog_species w"
proof (cases c)
  case (New a src)
  assume "step c w = Inr w'"
  with New obtain r where "Dog_new a src w = Inr (r, w')"
    by (auto split: sum.splits)
  from Dog_new_result [OF this] show ?thesis by auto
next
  case (Speak p)
  assume "step c w = Inr w'"
  with Speak show ?thesis
    by (auto simp: Dog_speak_def dest: printf_frame split: option.splits)
next
  case (GetSecret p)
  assume "step c w = Inr w'"
  with GetSecret show ?thesis
    by (auto simp: Dog_getSecret_def split: option.splits sum.splits)
next
  case (Print p)
  assume "step c w = Inr w'"
  with Print show ?thesis
    by (auto simp: dog_print_def dest: printf_frame split: option.splits)
qed

lemma step_frame:
  assumes "step c w = Inr w'" and "malloc_fresh c w" and "heap w q = Some d"
  shows "heap w' q = Some d"
proof (cases c)
  case (New a src)
  with assms(1) obtain r where "Dog_new a src w = Inr (r, w')"
    by (auto split: sum.splits)
  from Dog_new_result [OF this] show ?thesis
    using assms(2,3) New by auto
next
  case (Speak p)
  with assms(1,3) show ?thesis
    by (auto simp: Dog_speak_def dest: printf_frame split: option.splits)
next
  case (GetSecret p)
  with assms(1,3) show ?thesis
    by (auto simp: Dog_getSecret_def split: option.splits sum.splits)
next
  case (Print p)
  with assms(1,3) show ?thesis
    by (auto simp: dog_print_def dest: printf_frame split: option.splits)
qed

lemma step_inv:
  assumes "world_inv w" and "step c w = Inr w'"
  shows "world_inv w'"
proof (cases c)
  case (New a src)
  with assms(2) obtain r where "Dog_new a src w = Inr (r, w')"
    by (auto split: sum.splits)
  with assms(1) show ?thesis by (rule Dog_new_inv)
next
  case (Speak p)
  with assms show ?thesis
    by (auto simp: world_inv_def Dog_speak_def dest!: printf_frame split: option.splits)
next
  case (GetSecret p)
  with assms show ?thesis
    by (auto simp: Dog_getSecret_def split: option.splits sum.splits)
next
  case (Print p)
  with assms show ?thesis
    by (auto simp: world_inv_def dog_print_def dest!: printf_frame split: option.splits)
qed

lemma run_inv: "world_inv w \<Longrightarrow> run cs w = Inr w' \<Longrightarrow> world_inv w'"
proof (induction cs arbitrary: w)
  case Nil
  then show ?case by simp
next
  case (Cons c cs)
  from Cons.prems(2) obtain w1 where s: "step c w = Inr w1" and r: "run cs w1 = Inr w'"
    by (auto split: sum.splits)
  from Cons.prems(1) s have "world_inv w1" by (rule step_inv)
  then show ?case using r by (rule Cons.IH)
qed

lemma reachable_inv: "run cs world0 = Inr w \<Longrightarrow> world_inv w"
  using inv_world0 by (rule run_inv)

subsection \<open>Runs\<close>

lemma run_frame:
  "fresh_run cs w \<Longrightarrow> run cs w = Inr w' \<Longrightarrow> heap w q = Some d \<Longrightarrow> heap w' q = Some d"
proof (induction cs arbitrary: w)
  case Nil
  then show ?case by simp
next
  case (Cons c cs)
  from Cons.prems(2) obtain w1 where s: "step c w = Inr w1" and r: "run cs w1 = Inr w'"
    by (auto split: sum.splits)
  from Cons.prems(1) s have f: "malloc_fresh c w" and fr: "fresh_run cs w1"
    by simp_all
  from s f Cons.prems(3) have "heap w1 q = Some d" by (rule step_frame)
  with fr r show ?case by (rule Cons.IH)
qed

text \<open>The two printing functions, with \<open>printf\<close> worked out on their formats.\<close>

lemma Dog_speak_unfold:
  "Dog_speak p w =
     (case heap w p of
        None \<Rightarrow> Inl InvalidPointer
      | Some d \<Rightarrow>
          (case read_cstr (name (base d)) of
             Inl e \<Rightarrow> Inl e
           | Inr s \<Rightarrow> Inr (w\<lparr>stdout := stdout w @ s @ '' says: woof!'' @ [newline]\<rparr>)))"
  by (simp add: Dog_speak_def printf_def newline_def split: option.splits sum.splits)

lemma dog_print_unfold:
  "dog_print p w =
     (case heap w p of
        None \<Rightarrow> Inl InvalidPointer
      | Some d \<Rightarrow>
          (case read_cstr (name (base d)) of
             Inl e \<Rightarrow> Inl e
           | Inr s \<Rightarrow>
               (case read_cstr (Dog_species w) of
                  Inl e \<Rightarrow> Inl e
                | Inr t \<Rightarrow>
                    Inr (w\<lparr>stdout := stdout w @ ''[Dog] '' @ s @ '' (species='' @ t @ '')''
                                        @ [newline]\<rparr>))))"
  by (simp add: dog_print_def printf_def newline_def split: option.splits sum.splits)

lemma reachable_record:
  assumes "run cs world0 = Inr w" and "heap w p = Some d"
  shows "NUL \<in> set (name (base d))" and "cstr (secret d) = ''dog-secret''"
    and "Dog_species w = c_literal ''Canis familiaris''"
  using reachable_inv [OF assms(1)] assms(2) by (auto simp: world_inv_def)

lemma run_species: "run cs w = Inr w' \<Longrightarrow> Dog_species w' = Dog_species w"
proof (induction cs arbitrary: w)
  case Nil
  then show ?case by simp
next
  case (Cons c cs)
  from Cons.prems obtain w1 where s: "step c w = Inr w1" and r: "run cs w1 = Inr w'"
    by (auto split: sum.splits)
  from r have "Dog_species w' = Dog_species w1" by (rule Cons.IH)
  also from s have "\<dots> = Dog_species w" by (rule step_species)
  finally show ?case .
qed

lemma dog_print_reads_global:
  assumes "dog_print p w = Inr w'"
  shows "\<exists>d. heap w p = Some d \<and> NUL \<in> set (Dog_species w)
            \<and> stdout w' = stdout w @ ''[Dog] '' @ cstr (name (base d)) @ '' (species=''
                             @ cstr (Dog_species w) @ '')'' @ [newline]"
  using assms unfolding dog_print_unfold
  by (auto simp: read_cstr_def split: option.splits sum.splits if_splits)

subsection \<open>Names that agree on their first 49 characters\<close>

lemma same_padding:
  assumes "take 49 (cstr src1) = take 49 (cstr src2)"
  shows "49 - length (cstr src1) = 49 - length (cstr src2)"
proof -
  from assms have "length (take 49 (cstr src1)) = length (take 49 (cstr src2))"
    by simp
  then show ?thesis by (simp add: min_def split: if_splits)
qed

lemma Dog_new_same_prefix:
  assumes "NUL \<in> set src1" and "NUL \<in> set src2"
    and "take 49 (cstr src1) = take 49 (cstr src2)"
  shows "Dog_new a src1 w = Dog_new a src2 w"
proof (cases a)
  case None
  then show ?thesis by (simp add: Dog_new_None)
next
  case (Some pg)
  obtain p g where pg: "pg = (p, g)" by (cases pg)
  have 1: "NUL \<in> set src1 \<or> 49 \<le> length src1" using assms(1) by simp
  have 2: "NUL \<in> set src2 \<or> 49 \<le> length src2" using assms(2) by simp
  show ?thesis
    unfolding Some pg Dog_new_Some [OF 1] Dog_new_Some [OF 2]
    by (simp only: assms(3) same_padding [OF assms(3)])
qed

section \<open>The claims\<close>

text \<open>
  C1. A name longer than 49 characters: \<open>Dog_new\<close> returns the new record, its \<open>name\<close>
  field holds exactly the first 49 characters of the name and then NUL, the field is still
  50 bytes long and no store went outside it (no fault is returned); a name of exactly 50
  characters loses its last character.
\<close>

theorem Dog_new_truncates_long_name:
  assumes "49 < length (cstr src)"
  shows "\<exists>d. Dog_new (Some (p, g)) src w = Inr (Some p, w\<lparr>heap := (heap w)(p \<mapsto> d)\<rparr>)
             \<and> name (base d) = take 49 (cstr src) @ [NUL]
             \<and> cstr (name (base d)) = take 49 (cstr src)
             \<and> length (name (base d)) = sizeof_name
             \<and> (length (cstr src) = 50 \<longrightarrow> cstr (name (base d)) = butlast (cstr src))"
proof -
  let ?d = "\<lparr>base = \<lparr>name = take 49 (cstr src) @ [NUL]\<rparr>,
             secret = c_literal ''dog-secret'' @ drop 11 (secret (uninit g))\<rparr>"
  have rd: "NUL \<in> set src \<or> 49 \<le> length src"
    using assms length_cstr_le [of src] by simp
  have pad: "replicate (49 - length (cstr src)) NUL = []"
    using assms by simp
  have new: "Dog_new (Some (p, g)) src w = Inr (Some p, w\<lparr>heap := (heap w)(p \<mapsto> ?d)\<rparr>)"
    using Dog_new_Some [OF rd, of p g w] by (simp only: pad append_Nil)
  have "NUL \<notin> set (take 49 (cstr src))"
    using cstr_no_NUL [of src] by (auto dest: in_set_takeD)
  then have tx: "cstr (take 49 (cstr src) @ [NUL]) = take 49 (cstr src)"
    by (rule cstr_append_NUL)
  have len: "length (take 49 (cstr src) @ [NUL]) = sizeof_name"
    using assms by (simp add: sizeof_name_def)
  have bl: "length (cstr src) = 50 \<longrightarrow> take 49 (cstr src) = butlast (cstr src)"
    by (simp add: butlast_conv_take)
  show ?thesis
  proof (intro exI conjI)
    show "Dog_new (Some (p, g)) src w = Inr (Some p, w\<lparr>heap := (heap w)(p \<mapsto> ?d)\<rparr>)"
      by (rule new)
    show "name (base ?d) = take 49 (cstr src) @ [NUL]" by simp
    show "cstr (name (base ?d)) = take 49 (cstr src)" using tx by simp
    show "length (name (base ?d)) = sizeof_name" using len by simp
    show "length (cstr src) = 50 \<longrightarrow> cstr (name (base ?d)) = butlast (cstr src)"
    proof
      assume "length (cstr src) = 50"
      have "cstr (name (base ?d)) = take 49 (cstr src)"
        using tx by simp
      also have "\<dots> = butlast (cstr src)"
        using bl \<open>length (cstr src) = 50\<close> by blast
      finally show "cstr (name (base ?d)) = butlast (cstr src)" .
    qed
  qed
qed

theorem Dog_new_truncates_long_name_witness:
  "\<exists>d. Dog_new (Some (0, \<lambda>k. CHR ''?''))
            (c_literal ''ABCDEFGHIJKLMNOPQRSTUVWXYZabcdefghijklmnopqrstuvwx'') world0
          = Inr (Some 0, world0\<lparr>heap := (heap world0)(0 \<mapsto> d)\<rparr>)
      \<and> name (base d) = c_literal ''ABCDEFGHIJKLMNOPQRSTUVWXYZabcdefghijklmnopqrstuvw''
      \<and> cstr (name (base d)) = ''ABCDEFGHIJKLMNOPQRSTUVWXYZabcdefghijklmnopqrstuvw''
      \<and> length (name (base d)) = 50"
proof -
  let ?src = "c_literal ''ABCDEFGHIJKLMNOPQRSTUVWXYZabcdefghijklmnopqrstuvwx''"
  have c: "cstr ?src = ''ABCDEFGHIJKLMNOPQRSTUVWXYZabcdefghijklmnopqrstuvwx''"
    by (simp add: c_literal_def cstr_def NUL_def)
  have h: "49 < length (cstr ?src)"
    by (simp add: c)
  have t: "take 49 (cstr ?src) = ''ABCDEFGHIJKLMNOPQRSTUVWXYZabcdefghijklmnopqrstuvw''"
    by (simp add: c)
  from Dog_new_truncates_long_name [OF h, of 0 "\<lambda>k. CHR ''?''" world0] obtain d where
    "Dog_new (Some (0, \<lambda>k. CHR ''?'')) ?src world0
       = Inr (Some 0, world0\<lparr>heap := (heap world0)(0 \<mapsto> d)\<rparr>)"
    "name (base d) = take 49 (cstr ?src) @ [NUL]"
    "cstr (name (base d)) = take 49 (cstr ?src)"
    "length (name (base d)) = sizeof_name"
    by blast
  then show ?thesis
    unfolding t by (intro exI [of _ d]) (simp add: sizeof_name_def c_literal_def)
qed

text \<open>
  C2. A name of at most 49 characters, the empty name among them: \<open>Dog_new\<close> returns the
  new record and its \<open>name\<close> field holds the name unchanged, the rest of the 50 bytes
  being NUL.
\<close>

theorem Dog_new_keeps_short_name:
  assumes "NUL \<in> set src" and "length (cstr src) \<le> 49"
  shows "\<exists>d. Dog_new (Some (p, g)) src w = Inr (Some p, w\<lparr>heap := (heap w)(p \<mapsto> d)\<rparr>)
             \<and> name (base d) = cstr src @ replicate (50 - length (cstr src)) NUL
             \<and> cstr (name (base d)) = cstr src
             \<and> length (name (base d)) = sizeof_name"
proof -
  let ?nm = "cstr src @ replicate (50 - length (cstr src)) NUL"
  let ?d = "\<lparr>base = \<lparr>name = ?nm\<rparr>,
             secret = c_literal ''dog-secret'' @ drop 11 (secret (uninit g))\<rparr>"
  have rd: "NUL \<in> set src \<or> 49 \<le> length src"
    using assms(1) by simp
  have tk: "take 49 (cstr src) = cstr src"
    using assms(2) by simp
  have "replicate (49 - length (cstr src)) NUL @ [NUL] = replicate (Suc (49 - length (cstr src))) NUL"
    by (simp add: replicate_append_same)
  also have "Suc (49 - length (cstr src)) = 50 - length (cstr src)"
    using assms(2) by simp
  finally have pad: "replicate (49 - length (cstr src)) NUL @ [NUL] = replicate (50 - length (cstr src)) NUL" .
  have new: "Dog_new (Some (p, g)) src w = Inr (Some p, w\<lparr>heap := (heap w)(p \<mapsto> ?d)\<rparr>)"
    using Dog_new_Some [OF rd, of p g w] by (simp only: tk pad)
  obtain m where m: "50 - length (cstr src) = Suc m"
    using assms(2) by (cases "50 - length (cstr src)") simp_all
  have tx: "cstr ?nm = cstr src"
    unfolding m replicate_Suc using cstr_no_NUL by (rule cstr_append_NUL)
  have len: "length ?nm = sizeof_name"
    using assms(2) by (simp add: sizeof_name_def)
  show ?thesis
  proof (intro exI conjI)
    show "Dog_new (Some (p, g)) src w = Inr (Some p, w\<lparr>heap := (heap w)(p \<mapsto> ?d)\<rparr>)"
      by (rule new)
    show "name (base ?d) = ?nm" by simp
    show "cstr (name (base ?d)) = cstr src" using tx by simp
    show "length (name (base ?d)) = sizeof_name" using len by simp
  qed
qed

theorem Dog_new_keeps_short_name_witness:
  "(\<exists>d. Dog_new (Some (0, \<lambda>k. CHR ''?'')) (c_literal ''ABCDEFGHIJKLMNOPQRSTUVWXYZabcdefghijklmnopqrstuvw'') world0
                = Inr (Some 0, world0\<lparr>heap := (heap world0)(0 \<mapsto> d)\<rparr>)
            \<and> name (base d) = c_literal ''ABCDEFGHIJKLMNOPQRSTUVWXYZabcdefghijklmnopqrstuvw''
            \<and> cstr (name (base d)) = ''ABCDEFGHIJKLMNOPQRSTUVWXYZabcdefghijklmnopqrstuvw''
            \<and> length (name (base d)) = 50)
   \<and> (\<exists>d. Dog_new (Some (0, \<lambda>k. CHR ''?'')) (c_literal ''Rex'') world0
                = Inr (Some 0, world0\<lparr>heap := (heap world0)(0 \<mapsto> d)\<rparr>)
            \<and> name (base d) = ''Rex'' @ replicate 47 NUL
            \<and> cstr (name (base d)) = ''Rex''
            \<and> length (name (base d)) = 50)
   \<and> (\<exists>d. Dog_new (Some (0, \<lambda>k. CHR ''?'')) (c_literal []) world0
                = Inr (Some 0, world0\<lparr>heap := (heap world0)(0 \<mapsto> d)\<rparr>)
            \<and> name (base d) = replicate 50 NUL
            \<and> cstr (name (base d)) = []
            \<and> length (name (base d)) = 50)"
proof -
  have nula: "NUL \<in> set (c_literal ''ABCDEFGHIJKLMNOPQRSTUVWXYZabcdefghijklmnopqrstuvw'')"
    by (rule NUL_in_c_literal)
  have ca: "cstr (c_literal ''ABCDEFGHIJKLMNOPQRSTUVWXYZabcdefghijklmnopqrstuvw'') = ''ABCDEFGHIJKLMNOPQRSTUVWXYZabcdefghijklmnopqrstuvw''"
    by (simp add: c_literal_def cstr_def NUL_def)
  have la: "length (cstr (c_literal ''ABCDEFGHIJKLMNOPQRSTUVWXYZabcdefghijklmnopqrstuvw'')) \<le> 49"
    by (simp add: ca)
  have pa: "cstr (c_literal ''ABCDEFGHIJKLMNOPQRSTUVWXYZabcdefghijklmnopqrstuvw'') @ replicate (50 - length (cstr (c_literal ''ABCDEFGHIJKLMNOPQRSTUVWXYZabcdefghijklmnopqrstuvw''))) NUL
             = c_literal ''ABCDEFGHIJKLMNOPQRSTUVWXYZabcdefghijklmnopqrstuvw''"
    unfolding ca by (simp add: c_literal_def)
  from Dog_new_keeps_short_name [OF nula la, of 0 "\<lambda>k. CHR ''?''" world0] obtain da where
    da: "Dog_new (Some (0, \<lambda>k. CHR ''?'')) (c_literal ''ABCDEFGHIJKLMNOPQRSTUVWXYZabcdefghijklmnopqrstuvw'') world0
       = Inr (Some 0, world0\<lparr>heap := (heap world0)(0 \<mapsto> da)\<rparr>)"
    "name (base da)
       = cstr (c_literal ''ABCDEFGHIJKLMNOPQRSTUVWXYZabcdefghijklmnopqrstuvw'') @ replicate (50 - length (cstr (c_literal ''ABCDEFGHIJKLMNOPQRSTUVWXYZabcdefghijklmnopqrstuvw''))) NUL"
    "cstr (name (base da)) = cstr (c_literal ''ABCDEFGHIJKLMNOPQRSTUVWXYZabcdefghijklmnopqrstuvw'')"
    "length (name (base da)) = sizeof_name"
    by blast
  have ra: "\<exists>d. Dog_new (Some (0, \<lambda>k. CHR ''?'')) (c_literal ''ABCDEFGHIJKLMNOPQRSTUVWXYZabcdefghijklmnopqrstuvw'') world0
                = Inr (Some 0, world0\<lparr>heap := (heap world0)(0 \<mapsto> d)\<rparr>)
            \<and> name (base d) = c_literal ''ABCDEFGHIJKLMNOPQRSTUVWXYZabcdefghijklmnopqrstuvw''
            \<and> cstr (name (base d)) = ''ABCDEFGHIJKLMNOPQRSTUVWXYZabcdefghijklmnopqrstuvw''
            \<and> length (name (base d)) = 50"
  proof (intro exI conjI)
    show "Dog_new (Some (0, \<lambda>k. CHR ''?'')) (c_literal ''ABCDEFGHIJKLMNOPQRSTUVWXYZabcdefghijklmnopqrstuvw'') world0
            = Inr (Some 0, world0\<lparr>heap := (heap world0)(0 \<mapsto> da)\<rparr>)"
      by (rule da(1))
    show "name (base da) = c_literal ''ABCDEFGHIJKLMNOPQRSTUVWXYZabcdefghijklmnopqrstuvw''"
      using da(2) by (simp only: pa)
    show "cstr (name (base da)) = ''ABCDEFGHIJKLMNOPQRSTUVWXYZabcdefghijklmnopqrstuvw''"
      using da(3) by (simp only: ca)
    show "length (name (base da)) = 50"
      using da(4) by (simp only: sizeof_name_def)
  qed
  have nulb: "NUL \<in> set (c_literal ''Rex'')"
    by (rule NUL_in_c_literal)
  have cb: "cstr (c_literal ''Rex'') = ''Rex''"
    by (simp add: c_literal_def cstr_def NUL_def)
  have lb: "length (cstr (c_literal ''Rex'')) \<le> 49"
    by (simp add: cb)
  have pb: "cstr (c_literal ''Rex'') @ replicate (50 - length (cstr (c_literal ''Rex''))) NUL
             = ''Rex'' @ replicate 47 NUL"
    unfolding cb by simp
  from Dog_new_keeps_short_name [OF nulb lb, of 0 "\<lambda>k. CHR ''?''" world0] obtain db where
    db: "Dog_new (Some (0, \<lambda>k. CHR ''?'')) (c_literal ''Rex'') world0
       = Inr (Some 0, world0\<lparr>heap := (heap world0)(0 \<mapsto> db)\<rparr>)"
    "name (base db)
       = cstr (c_literal ''Rex'') @ replicate (50 - length (cstr (c_literal ''Rex''))) NUL"
    "cstr (name (base db)) = cstr (c_literal ''Rex'')"
    "length (name (base db)) = sizeof_name"
    by blast
  have rb: "\<exists>d. Dog_new (Some (0, \<lambda>k. CHR ''?'')) (c_literal ''Rex'') world0
                = Inr (Some 0, world0\<lparr>heap := (heap world0)(0 \<mapsto> d)\<rparr>)
            \<and> name (base d) = ''Rex'' @ replicate 47 NUL
            \<and> cstr (name (base d)) = ''Rex''
            \<and> length (name (base d)) = 50"
  proof (intro exI conjI)
    show "Dog_new (Some (0, \<lambda>k. CHR ''?'')) (c_literal ''Rex'') world0
            = Inr (Some 0, world0\<lparr>heap := (heap world0)(0 \<mapsto> db)\<rparr>)"
      by (rule db(1))
    show "name (base db) = ''Rex'' @ replicate 47 NUL"
      using db(2) by (simp only: pb)
    show "cstr (name (base db)) = ''Rex''"
      using db(3) by (simp only: cb)
    show "length (name (base db)) = 50"
      using db(4) by (simp only: sizeof_name_def)
  qed
  have nulc: "NUL \<in> set (c_literal [])"
    by (rule NUL_in_c_literal)
  have cc: "cstr (c_literal []) = []"
    by (simp add: c_literal_def cstr_def NUL_def)
  have lc: "length (cstr (c_literal [])) \<le> 49"
    by (simp add: cc)
  have pc: "cstr (c_literal []) @ replicate (50 - length (cstr (c_literal []))) NUL
             = replicate 50 NUL"
    unfolding cc by simp
  from Dog_new_keeps_short_name [OF nulc lc, of 0 "\<lambda>k. CHR ''?''" world0] obtain dc where
    dc: "Dog_new (Some (0, \<lambda>k. CHR ''?'')) (c_literal []) world0
       = Inr (Some 0, world0\<lparr>heap := (heap world0)(0 \<mapsto> dc)\<rparr>)"
    "name (base dc)
       = cstr (c_literal []) @ replicate (50 - length (cstr (c_literal []))) NUL"
    "cstr (name (base dc)) = cstr (c_literal [])"
    "length (name (base dc)) = sizeof_name"
    by blast
  have rc: "\<exists>d. Dog_new (Some (0, \<lambda>k. CHR ''?'')) (c_literal []) world0
                = Inr (Some 0, world0\<lparr>heap := (heap world0)(0 \<mapsto> d)\<rparr>)
            \<and> name (base d) = replicate 50 NUL
            \<and> cstr (name (base d)) = []
            \<and> length (name (base d)) = 50"
  proof (intro exI conjI)
    show "Dog_new (Some (0, \<lambda>k. CHR ''?'')) (c_literal []) world0
            = Inr (Some 0, world0\<lparr>heap := (heap world0)(0 \<mapsto> dc)\<rparr>)"
      by (rule dc(1))
    show "name (base dc) = replicate 50 NUL"
      using dc(2) by (simp only: pc)
    show "cstr (name (base dc)) = []"
      using dc(3) by (simp only: cc)
    show "length (name (base dc)) = 50"
      using dc(4) by (simp only: sizeof_name_def)
  qed
  show ?thesis
    by (rule conjI [OF ra conjI [OF rb rc]])
qed

text \<open>
  C3. Whatever the name, a record that \<open>Dog_new\<close> returned has the secret text
  \<open>dog-secret\<close>, \<open>Dog_getSecret\<close> returns that field, and after any further calls of
  the four functions the field is the same and \<open>Dog_getSecret\<close> still returns it.
\<close>

theorem secret_fixed_after_construction:
  assumes "Dog_new a src w = Inr (Some p, w1)"
  shows "\<exists>d. heap w1 p = Some d \<and> cstr (secret d) = ''dog-secret''
             \<and> Dog_getSecret p w1 = Inr (secret d, w1)
             \<and> (\<forall>cs w2. fresh_run cs w1 \<and> run cs w1 = Inr w2 \<longrightarrow>
                   (\<exists>d'. heap w2 p = Some d' \<and> secret d' = secret d)
                   \<and> Dog_getSecret p w2 = Inr (secret d, w2))"
proof -
  from Dog_new_result [OF assms] obtain g nm where
    w1: "w1 = w\<lparr>heap := (heap w)(p \<mapsto>
                 \<lparr>base = \<lparr>name = nm[49 := NUL]\<rparr>,
                  secret = c_literal ''dog-secret'' @ drop 11 (secret (uninit g))\<rparr>)\<rparr>"
    by auto
  let ?d = "\<lparr>base = \<lparr>name = nm[49 := NUL]\<rparr>,
             secret = c_literal ''dog-secret'' @ drop 11 (secret (uninit g))\<rparr>"
  have h: "heap w1 p = Some ?d"
    by (simp add: w1)
  have s: "cstr (secret ?d) = ''dog-secret''"
    by (simp add: cstr_secret_field)
  have later: "heap w2 p = Some ?d \<and> Dog_getSecret p w2 = Inr (secret ?d, w2)"
    if "fresh_run cs w1" and "run cs w1 = Inr w2" for cs w2
  proof -
    from that h have "heap w2 p = Some ?d" by (rule run_frame)
    then show ?thesis by (simp add: Dog_getSecret_eq)
  qed
  show ?thesis
  proof (intro exI conjI allI impI)
    show "heap w1 p = Some ?d" by (rule h)
    show "cstr (secret ?d) = ''dog-secret''" by (rule s)
    show "Dog_getSecret p w1 = Inr (secret ?d, w1)"
      using h by (rule Dog_getSecret_eq)
  next
    fix cs w2
    assume "fresh_run cs w1 \<and> run cs w1 = Inr w2"
    then show "heap w2 p = Some ?d" using later by blast
    show "secret ?d = secret ?d" by (rule refl)
  next
    fix cs w2
    assume "fresh_run cs w1 \<and> run cs w1 = Inr w2"
    then show "Dog_getSecret p w2 = Inr (secret ?d, w2)" using later by blast
  qed
qed

theorem secret_fixed_after_construction_witness:
  "\<exists>w1 d. Dog_new (Some (0, \<lambda>k. CHR ''?'')) (c_literal ''Rex'') world0 = Inr (Some 0, w1)
      \<and> heap w1 0 = Some d \<and> cstr (secret d) = ''dog-secret''
      \<and> Dog_getSecret 0 w1 = Inr (secret d, w1)
      \<and> (\<exists>w2. fresh_run [Speak 0, GetSecret 0, Print 0,
                           New (Some (1, \<lambda>k. CHR ''!'')) (c_literal ''Bo'')] w1
             \<and> run [Speak 0, GetSecret 0, Print 0,
                     New (Some (1, \<lambda>k. CHR ''!'')) (c_literal ''Bo'')] w1 = Inr w2
             \<and> (\<exists>d'. heap w2 0 = Some d' \<and> secret d' = secret d)
             \<and> Dog_getSecret 0 w2 = Inr (secret d, w2))"
proof -
  let ?cs = "[Speak 0, GetSecret 0, Print 0, New (Some (1, \<lambda>k. CHR ''!'')) (c_literal ''Bo'')]"
  have rex: "NUL \<in> set (c_literal ''Rex'') \<or> 49 \<le> length (c_literal ''Rex'')"
    by (simp add: NUL_in_c_literal)
  have bo: "NUL \<in> set (c_literal ''Bo'') \<or> 49 \<le> length (c_literal ''Bo'')"
    by (simp add: NUL_in_c_literal)
  define d0 where "d0 =
    \<lparr>base = \<lparr>name = take 49 (cstr (c_literal ''Rex''))
                      @ replicate (49 - length (cstr (c_literal ''Rex''))) NUL @ [NUL]\<rparr>,
     secret = c_literal ''dog-secret'' @ drop 11 (secret (uninit (\<lambda>k. CHR ''?'')))\<rparr>"
  define w1 where "w1 = world0\<lparr>heap := (heap world0)(0 \<mapsto> d0)\<rparr>"
  have new: "Dog_new (Some (0, \<lambda>k. CHR ''?'')) (c_literal ''Rex'') world0 = Inr (Some 0, w1)"
    unfolding w1_def d0_def by (rule Dog_new_Some [OF rex])
  have nm: "read_cstr (name (base d0)) = Inr ''Rex''"
    by (simp add: d0_def read_cstr_def c_literal_def cstr_def NUL_def)
  have sp: "read_cstr (c_literal ''Canis familiaris'') = Inr ''Canis familiaris''"
    by (simp add: read_cstr_def c_literal_def cstr_def NUL_def)
  have fr: "fresh_run ?cs w1"
    by (simp add: w1_def world0_def Dog_speak_unfold dog_print_unfold Dog_getSecret_def nm sp
        Dog_new_Some [OF bo])
  have "\<exists>w2. run ?cs w1 = Inr w2"
    by (simp add: w1_def world0_def Dog_speak_unfold dog_print_unfold Dog_getSecret_def nm sp
        Dog_new_Some [OF bo])
  then obtain w2 where rn: "run ?cs w1 = Inr w2" ..
  from secret_fixed_after_construction [OF new] obtain d where
    "heap w1 0 = Some d" "cstr (secret d) = ''dog-secret''"
    "Dog_getSecret 0 w1 = Inr (secret d, w1)"
    "\<forall>cs w2. fresh_run cs w1 \<and> run cs w1 = Inr w2 \<longrightarrow>
        (\<exists>d'. heap w2 0 = Some d' \<and> secret d' = secret d)
        \<and> Dog_getSecret 0 w2 = Inr (secret d, w2)"
    by blast
  with new fr rn show ?thesis by blast
qed

text \<open>
  C4. In any state a client can reach and for any C string as the name, \<open>Dog_new\<close> never
  faults; it returns NULL exactly when \<open>malloc\<close> returned NULL, and then the state is
  unchanged; and on every record of that state \<open>Dog_speak\<close>, \<open>Dog_getSecret\<close> and
  \<open>dog_print\<close> return without a fault.
\<close>

theorem allocation_is_the_only_failure:
  assumes "run cs world0 = Inr w" and "NUL \<in> set src"
  shows "(\<forall>e. Dog_new a src w \<noteq> Inl e)
       \<and> ((\<exists>w'. Dog_new a src w = Inr (None, w')) \<longleftrightarrow> a = None)
       \<and> (a = None \<longrightarrow> Dog_new a src w = Inr (None, w))
       \<and> (\<forall>p g. a = Some (p, g) \<longrightarrow> (\<exists>w'. Dog_new a src w = Inr (Some p, w')))
       \<and> (\<forall>q d. heap w q = Some d \<longrightarrow>
             (\<exists>w'. Dog_speak q w = Inr w') \<and> (\<exists>r. Dog_getSecret q w = Inr r)
             \<and> (\<exists>w'. dog_print q w = Inr w'))"
proof -
  have rd: "NUL \<in> set src \<or> 49 \<le> length src"
    using assms(2) by simp
  have new: "Dog_new a src w = Inr (None, w)" if "a = None"
    using that by (simp add: Dog_new_None)
  have some: "\<exists>w'. Dog_new a src w = Inr (Some p, w')" if "a = Some (p, g)" for p g
    using that Dog_new_Some [OF rd, of p g w] by simp
  have nofault: "Dog_new a src w \<noteq> Inl e" for e
  proof (cases a)
    case None
    then show ?thesis using new by simp
  next
    case (Some pg)
    then show ?thesis using some [of "fst pg" "snd pg"] by auto
  qed
  have iff: "(\<exists>w'. Dog_new a src w = Inr (None, w')) \<longleftrightarrow> a = None"
  proof (cases a)
    case None
    then show ?thesis using new by simp
  next
    case (Some pg)
    then show ?thesis using some [of "fst pg" "snd pg"] by auto
  qed
  have ops: "(\<exists>w'. Dog_speak q w = Inr w') \<and> (\<exists>r. Dog_getSecret q w = Inr r)
             \<and> (\<exists>w'. dog_print q w = Inr w')" if h: "heap w q = Some d" for q d
  proof -
    note r = reachable_record [OF assms(1) h]
    have "NUL \<in> set (Dog_species w)"
      by (simp add: r(3) NUL_in_c_literal)
    then show ?thesis
      using Dog_speak_eq [OF h r(1)] Dog_getSecret_eq [OF h] dog_print_eq [OF h r(1)]
      by simp
  qed
  show ?thesis
    using nofault iff new some ops by blast
qed

theorem allocation_is_the_only_failure_witness:
  "\<exists>w. run [New (Some (0, \<lambda>k. CHR ''?'')) (c_literal ''Rex'')] world0 = Inr w
      \<and> NUL \<in> set (c_literal ''Bo'')
      \<and> Dog_new None (c_literal ''Bo'') w = Inr (None, w)
      \<and> (\<exists>w'. Dog_new (Some (1, \<lambda>k. CHR ''!'')) (c_literal ''Bo'') w = Inr (Some 1, w'))
      \<and> (\<exists>w'. Dog_speak 0 w = Inr w') \<and> (\<exists>r. Dog_getSecret 0 w = Inr r)
      \<and> (\<exists>w'. dog_print 0 w = Inr w')"
proof -
  have rex: "NUL \<in> set (c_literal ''Rex'') \<or> 49 \<le> length (c_literal ''Rex'')"
    by (simp add: NUL_in_c_literal)
  have bo: "NUL \<in> set (c_literal ''Bo'')"
    by (rule NUL_in_c_literal)
  define d0 where "d0 =
    \<lparr>base = \<lparr>name = take 49 (cstr (c_literal ''Rex''))
                      @ replicate (49 - length (cstr (c_literal ''Rex''))) NUL @ [NUL]\<rparr>,
     secret = c_literal ''dog-secret'' @ drop 11 (secret (uninit (\<lambda>k. CHR ''?'')))\<rparr>"
  define w1 where "w1 = world0\<lparr>heap := (heap world0)(0 \<mapsto> d0)\<rparr>"
  have rn: "run [New (Some (0, \<lambda>k. CHR ''?'')) (c_literal ''Rex'')] world0 = Inr w1"
    by (simp add: w1_def d0_def Dog_new_Some [OF rex])
  have h: "heap w1 0 = Some d0"
    by (simp add: w1_def)
  note none = allocation_is_the_only_failure [OF rn bo, of None]
  note some = allocation_is_the_only_failure [OF rn bo, of "Some (1, \<lambda>k. CHR ''!'')"]
  have 1: "Dog_new None (c_literal ''Bo'') w1 = Inr (None, w1)"
    using none by blast
  have 2: "\<exists>w'. Dog_new (Some (1, \<lambda>k. CHR ''!'')) (c_literal ''Bo'') w1 = Inr (Some 1, w')"
    using some by blast
  have 3: "(\<exists>w'. Dog_speak 0 w1 = Inr w') \<and> (\<exists>r. Dog_getSecret 0 w1 = Inr r)
           \<and> (\<exists>w'. dog_print 0 w1 = Inr w')"
    using none h by blast
  show ?thesis
    using rn bo 1 2 3 by blast
qed

text \<open>
  C5. For a record whose \<open>name\<close> field holds a C string, \<open>Dog_speak\<close> appends to standard
  output the name, the text \<open> says: woof!\<close> and a newline, and nothing else; it returns
  no value and no fault, and changes nothing but standard output.
\<close>

theorem Dog_speak_output:
  assumes "heap w p = Some d" and "NUL \<in> set (name (base d))"
  shows "Dog_speak p w =
           Inr (w\<lparr>stdout := stdout w @ cstr (name (base d)) @ '' says: woof!'' @ [newline]\<rparr>)"
proof -
  have "format_s (''%s says: woof!'' @ [newline]) [name (base d)]
          = Inr (cstr (name (base d)) @ '' says: woof!'' @ [newline])"
    using assms(2) by (rule format_speak)
  then show ?thesis
    unfolding Dog_speak_def printf_def by (simp only: assms(1) option.case sum.case)
qed

theorem Dog_speak_output_witness:
  "Dog_speak 0 \<lparr>heap = [0 \<mapsto> \<lparr>base = \<lparr>name = c_literal ''Rex'' @ replicate 46 NUL\<rparr>,
                              secret = c_literal ''dog-secret'' @ replicate 39 NUL\<rparr>],
                Dog_species = c_literal ''Canis familiaris'', stdout = []\<rparr>
     = Inr \<lparr>heap = [0 \<mapsto> \<lparr>base = \<lparr>name = c_literal ''Rex'' @ replicate 46 NUL\<rparr>,
                              secret = c_literal ''dog-secret'' @ replicate 39 NUL\<rparr>],
            Dog_species = c_literal ''Canis familiaris'',
            stdout = ''Rex says: woof!'' @ [newline]\<rparr>"
proof -
  let ?d = "\<lparr>base = \<lparr>name = c_literal ''Rex'' @ replicate 46 NUL\<rparr>,
             secret = c_literal ''dog-secret'' @ replicate 39 NUL\<rparr>"
  let ?w = "\<lparr>heap = [0 \<mapsto> ?d], Dog_species = c_literal ''Canis familiaris'', stdout = []\<rparr>"
  have h: "heap ?w 0 = Some ?d" by simp
  have n: "NUL \<in> set (name (base ?d))" by (simp add: c_literal_def)
  have c: "cstr (c_literal ''Rex'' @ replicate 46 NUL) = ''Rex''"
    by (simp add: c_literal_def cstr_def NUL_def)
  show ?thesis
    using Dog_speak_output [OF h n] by (simp add: c)
qed

text \<open>
  C6. In any state a client can reach, for any record of that state, \<open>dog_print\<close> appends
  to standard output \<open>[Dog] \<close>, the name, \<open> (species=Canis familiaris)\<close> and a newline,
  and nothing else; the species text is read from the global \<open>Dog_species\<close> of the state,
  the record has no such field.
\<close>

theorem dog_print_output:
  assumes "run cs world0 = Inr w" and "heap w p = Some d"
  shows "dog_print p w =
           Inr (w\<lparr>stdout := stdout w @ ''[Dog] '' @ cstr (name (base d))
                               @ '' (species=Canis familiaris)'' @ [newline]\<rparr>)
         \<and> cstr (Dog_species w) = ''Canis familiaris''"
proof -
  note r = reachable_record [OF assms]
  have s: "NUL \<in> set (Dog_species w)"
    by (simp add: r(3) NUL_in_c_literal)
  have c: "cstr (Dog_species w) = ''Canis familiaris''"
    by (simp add: r(3) cstr_species)
  show ?thesis
    using dog_print_eq [OF assms(2) r(1) s] by (simp add: c)
qed

theorem dog_print_output_witness:
  "\<exists>w. run [New (Some (0, \<lambda>k. CHR ''?'')) (c_literal ''Rex''), Speak 0] world0 = Inr w
      \<and> dog_print 0 w =
          Inr (w\<lparr>stdout := ''Rex says: woof!'' @ [newline]
                             @ ''[Dog] Rex (species=Canis familiaris)'' @ [newline]\<rparr>)"
proof -
  have rex: "NUL \<in> set (c_literal ''Rex'') \<or> 49 \<le> length (c_literal ''Rex'')"
    by (simp add: NUL_in_c_literal)
  define d0 where "d0 =
    \<lparr>base = \<lparr>name = take 49 (cstr (c_literal ''Rex''))
                      @ replicate (49 - length (cstr (c_literal ''Rex''))) NUL @ [NUL]\<rparr>,
     secret = c_literal ''dog-secret'' @ drop 11 (secret (uninit (\<lambda>k. CHR ''?'')))\<rparr>"
  define w2 where "w2 = world0\<lparr>heap := (heap world0)(0 \<mapsto> d0),
                               stdout := ''Rex says: woof!'' @ [newline]\<rparr>"
  have nm: "read_cstr (name (base d0)) = Inr ''Rex''"
    by (simp add: d0_def read_cstr_def c_literal_def cstr_def NUL_def)
  have c: "cstr (name (base d0)) = ''Rex''"
    by (simp add: d0_def c_literal_def cstr_def NUL_def)
  have rn: "run [New (Some (0, \<lambda>k. CHR ''?'')) (c_literal ''Rex''), Speak 0] world0 = Inr w2"
    using nm by (simp add: w2_def d0_def Dog_new_Some [OF rex] Dog_speak_unfold world0_def)
  have h: "heap w2 0 = Some d0"
    by (simp add: w2_def)
  have o: "stdout w2 = ''Rex says: woof!'' @ [newline]"
    by (simp add: w2_def)
  show ?thesis
    using rn dog_print_output [OF rn h] by (intro exI [of _ w2]) (simp add: c o)
qed

text \<open>
  C7. The species label is the one global \<open>Dog_species\<close>: it starts as the literal
  \<open>Canis familiaris\<close>, no call of the four functions and no run of calls changes it, so it
  is that literal in every state a client can reach, and what \<open>dog_print\<close> prints as the
  species of any record is the text of the global, the same for every record.
\<close>

theorem Dog_species_constant:
  "Dog_species world0 = c_literal ''Canis familiaris''
   \<and> (\<forall>c w w'. step c w = Inr w' \<longrightarrow> Dog_species w' = Dog_species w)
   \<and> (\<forall>cs w w'. run cs w = Inr w' \<longrightarrow> Dog_species w' = Dog_species w)
   \<and> (\<forall>cs w. run cs world0 = Inr w \<longrightarrow> cstr (Dog_species w) = ''Canis familiaris'')
   \<and> (\<forall>p w w'. dog_print p w = Inr w' \<longrightarrow>
         (\<exists>d. heap w p = Some d
             \<and> stdout w' = stdout w @ ''[Dog] '' @ cstr (name (base d)) @ '' (species=''
                              @ cstr (Dog_species w) @ '')'' @ [newline]))"
proof (intro conjI allI impI)
  show "Dog_species world0 = c_literal ''Canis familiaris''"
    by (simp add: world0_def)
next
  fix c w w'
  assume "step c w = Inr w'"
  then show "Dog_species w' = Dog_species w" by (rule step_species)
next
  fix cs w w'
  assume "run cs w = Inr w'"
  then show "Dog_species w' = Dog_species w" by (rule run_species)
next
  fix cs w
  assume "run cs world0 = Inr w"
  then have "Dog_species w = Dog_species world0" by (rule run_species)
  then show "cstr (Dog_species w) = ''Canis familiaris''"
    by (simp add: world0_def cstr_species)
next
  fix p w w'
  assume "dog_print p w = Inr w'"
  from dog_print_reads_global [OF this]
  show "\<exists>d. heap w p = Some d
            \<and> stdout w' = stdout w @ ''[Dog] '' @ cstr (name (base d)) @ '' (species=''
                             @ cstr (Dog_species w) @ '')'' @ [newline]"
    by blast
qed

theorem Dog_species_constant_witness:
  "\<exists>w. run [New (Some (0, \<lambda>k. CHR ''?'')) (c_literal ''Rex''), Speak 0, Print 0,
             New (Some (1, \<lambda>k. CHR ''!'')) (c_literal ''Bo''), GetSecret 1, Print 1] world0
          = Inr w
      \<and> Dog_species w = c_literal ''Canis familiaris''
      \<and> cstr (Dog_species w) = ''Canis familiaris''"
proof -
  let ?cs = "[New (Some (0, \<lambda>k. CHR ''?'')) (c_literal ''Rex''), Speak 0, Print 0,
              New (Some (1, \<lambda>k. CHR ''!'')) (c_literal ''Bo''), GetSecret 1, Print 1]"
  have rex: "NUL \<in> set (c_literal ''Rex'') \<or> 49 \<le> length (c_literal ''Rex'')"
    by (simp add: NUL_in_c_literal)
  have bo: "NUL \<in> set (c_literal ''Bo'') \<or> 49 \<le> length (c_literal ''Bo'')"
    by (simp add: NUL_in_c_literal)
  have nm: "NUL \<in> set (take 49 (cstr (c_literal s)) @ replicate (49 - length (cstr (c_literal s))) NUL @ [NUL])" for s
    by simp
  have sp: "NUL \<in> set (c_literal ''Canis familiaris'')"
    by (rule NUL_in_c_literal)
  have "\<exists>w. run ?cs world0 = Inr w"
    by (simp add: world0_def Dog_new_Some [OF rex] Dog_new_Some [OF bo] Dog_speak_unfold
        dog_print_unfold Dog_getSecret_def read_cstr_def nm sp)
  then obtain w where rn: "run ?cs world0 = Inr w" ..
  from Dog_species_constant have
    a: "Dog_species world0 = c_literal ''Canis familiaris''" and
    b: "\<forall>cs w w'. run cs w = Inr w' \<longrightarrow> Dog_species w' = Dog_species w" and
    c: "\<forall>cs w. run cs world0 = Inr w \<longrightarrow> cstr (Dog_species w) = ''Canis familiaris''"
    by blast+
  from b rn have "Dog_species w = Dog_species world0" by blast
  with a have 1: "Dog_species w = c_literal ''Canis familiaris''" by (simp only:)
  from c rn have 2: "cstr (Dog_species w) = ''Canis familiaris''" by blast
  from rn 1 2 show ?thesis by blast
qed

text \<open>
  C8. The literal \<open>dog-secret\<close> is 11 bytes with its NUL and the \<open>secret\<close> field is 50:
  \<open>strcpy\<close> into any 50-byte buffer returns without a fault, writes the 11 bytes at the
  front, leaves the buffer 50 bytes long and holding the whole text \<open>dog-secret\<close> as a
  terminated C string. \<open>Dog_new\<close> makes this copy into the fresh block on every
  construction that returns a record, whatever the name argument.
\<close>

theorem secret_copy_in_bounds:
  "length (c_literal ''dog-secret'') = 11 \<and> 11 \<le> sizeof_secret
   \<and> (\<forall>buf. length buf = sizeof_secret \<longrightarrow>
         strcpy buf (c_literal ''dog-secret'') = Inr (c_literal ''dog-secret'' @ drop 11 buf)
         \<and> length (c_literal ''dog-secret'' @ drop 11 buf) = sizeof_secret
         \<and> NUL \<in> set (c_literal ''dog-secret'' @ drop 11 buf)
         \<and> cstr (c_literal ''dog-secret'' @ drop 11 buf) = ''dog-secret'')
   \<and> (\<forall>p g src w r w1. Dog_new (Some (p, g)) src w = Inr (r, w1) \<longrightarrow>
         (\<exists>d. heap w1 p = Some d
             \<and> strcpy (secret (uninit g)) (c_literal ''dog-secret'') = Inr (secret d)
             \<and> length (secret d) = sizeof_secret
             \<and> NUL \<in> set (secret d)
             \<and> cstr (secret d) = ''dog-secret''))"
proof (intro conjI allI impI)
  show "length (c_literal ''dog-secret'') = 11"
    by (simp add: c_literal_def)
  show "11 \<le> sizeof_secret"
    by (simp add: sizeof_secret_def)
next
  fix buf :: "char list"
  assume l: "length buf = sizeof_secret"
  then have "11 \<le> length buf" by (simp add: sizeof_secret_def)
  then show "strcpy buf (c_literal ''dog-secret'') = Inr (c_literal ''dog-secret'' @ drop 11 buf)"
    by (rule strcpy_dog_secret)
  show "length (c_literal ''dog-secret'' @ drop 11 buf) = sizeof_secret"
    using l by (simp add: c_literal_def sizeof_secret_def)
  show "NUL \<in> set (c_literal ''dog-secret'' @ drop 11 buf)"
    by (simp add: NUL_in_c_literal)
  show "cstr (c_literal ''dog-secret'' @ drop 11 buf) = ''dog-secret''"
    by (rule cstr_secret_field)
next
  fix p g src w r w1
  assume "Dog_new (Some (p, g)) src w = Inr (r, w1)"
  from Dog_new_result [OF this] obtain nm where
    w1: "w1 = w\<lparr>heap := (heap w)(p \<mapsto>
                 \<lparr>base = \<lparr>name = nm[49 := NUL]\<rparr>,
                  secret = c_literal ''dog-secret'' @ drop 11 (secret (uninit g))\<rparr>)\<rparr>"
    by auto
  let ?d = "\<lparr>base = \<lparr>name = nm[49 := NUL]\<rparr>,
             secret = c_literal ''dog-secret'' @ drop 11 (secret (uninit g))\<rparr>"
  show "\<exists>d. heap w1 p = Some d
           \<and> strcpy (secret (uninit g)) (c_literal ''dog-secret'') = Inr (secret d)
           \<and> length (secret d) = sizeof_secret
           \<and> NUL \<in> set (secret d)
           \<and> cstr (secret d) = ''dog-secret''"
  proof (intro exI conjI)
    show "heap w1 p = Some ?d" by (simp add: w1)
    have "strcpy (secret (uninit g)) (c_literal ''dog-secret'')
            = Inr (c_literal ''dog-secret'' @ drop 11 (secret (uninit g)))"
      by (rule strcpy_dog_secret) (simp add: length_secret_uninit)
    then show "strcpy (secret (uninit g)) (c_literal ''dog-secret'') = Inr (secret ?d)"
      by simp
    show "length (secret ?d) = sizeof_secret"
      by (simp add: c_literal_def sizeof_secret_def length_secret_uninit)
    show "NUL \<in> set (secret ?d)"
      by (simp add: NUL_in_c_literal)
    show "cstr (secret ?d) = ''dog-secret''"
      by (simp add: cstr_secret_field)
  qed
qed

theorem secret_copy_in_bounds_witness:
  "length (replicate 50 (CHR ''?'')) = sizeof_secret
   \<and> strcpy (replicate 50 (CHR ''?'')) (c_literal ''dog-secret'')
       = Inr (c_literal ''dog-secret'' @ replicate 39 (CHR ''?''))
   \<and> cstr (c_literal ''dog-secret'' @ replicate 39 (CHR ''?'')) = ''dog-secret''
   \<and> (\<exists>w1 d. Dog_new (Some (0, \<lambda>k. CHR ''?'')) (c_literal ''Rex'') world0 = Inr (Some 0, w1)
         \<and> heap w1 0 = Some d \<and> length (secret d) = sizeof_secret
         \<and> cstr (secret d) = ''dog-secret'')"
proof -
  have l: "length (replicate 50 (CHR ''?'')) = sizeof_secret"
    by (simp add: sizeof_secret_def)
  have rex: "NUL \<in> set (c_literal ''Rex'') \<or> 49 \<le> length (c_literal ''Rex'')"
    by (simp add: NUL_in_c_literal)
  from Dog_new_Some [OF rex, of 0 "\<lambda>k. CHR ''?''" world0]
  obtain w1 where new: "Dog_new (Some (0, \<lambda>k. CHR ''?'')) (c_literal ''Rex'') world0 = Inr (Some 0, w1)"
    by blast
  from secret_copy_in_bounds have
    a: "\<forall>buf. length buf = sizeof_secret \<longrightarrow>
         strcpy buf (c_literal ''dog-secret'') = Inr (c_literal ''dog-secret'' @ drop 11 buf)
         \<and> length (c_literal ''dog-secret'' @ drop 11 buf) = sizeof_secret
         \<and> NUL \<in> set (c_literal ''dog-secret'' @ drop 11 buf)
         \<and> cstr (c_literal ''dog-secret'' @ drop 11 buf) = ''dog-secret''" and
    b: "\<forall>p g src w r w1. Dog_new (Some (p, g)) src w = Inr (r, w1) \<longrightarrow>
         (\<exists>d. heap w1 p = Some d
             \<and> strcpy (secret (uninit g)) (c_literal ''dog-secret'') = Inr (secret d)
             \<and> length (secret d) = sizeof_secret
             \<and> NUL \<in> set (secret d)
             \<and> cstr (secret d) = ''dog-secret'')"
    by blast+
  have d: "drop 11 (replicate 50 (CHR ''?'')) = replicate 39 (CHR ''?'')"
    by simp
  from a l have
    "strcpy (replicate 50 (CHR ''?'')) (c_literal ''dog-secret'')
       = Inr (c_literal ''dog-secret'' @ drop 11 (replicate 50 (CHR ''?'')))"
    "cstr (c_literal ''dog-secret'' @ drop 11 (replicate 50 (CHR ''?''))) = ''dog-secret''"
    by blast+
  then have 1:
    "strcpy (replicate 50 (CHR ''?'')) (c_literal ''dog-secret'')
       = Inr (c_literal ''dog-secret'' @ replicate 39 (CHR ''?''))"
    "cstr (c_literal ''dog-secret'' @ replicate 39 (CHR ''?'')) = ''dog-secret''"
    by (simp_all only: d)
  from b new obtain d where
    2: "heap w1 0 = Some d" "length (secret d) = sizeof_secret" "cstr (secret d) = ''dog-secret''"
    by blast
  from l 1 new 2 show ?thesis by blast
qed

text \<open>
  C9. In any state a client can reach, for any record of that state, each of
  \<open>Dog_speak\<close>, \<open>Dog_getSecret\<close> and \<open>dog_print\<close> returns and leaves the heap as it
  was: the record is the same record, with the same \<open>name\<close> and \<open>secret\<close> bytes, and
  so is every other record.
\<close>

theorem readers_leave_records_unchanged:
  assumes "run cs world0 = Inr w" and "heap w p = Some d"
  shows "(\<exists>w'. Dog_speak p w = Inr w' \<and> heap w' = heap w \<and> heap w' p = Some d)
       \<and> (\<exists>w'. Dog_getSecret p w = Inr (secret d, w') \<and> heap w' = heap w \<and> heap w' p = Some d)
       \<and> (\<exists>w'. dog_print p w = Inr w' \<and> heap w' = heap w \<and> heap w' p = Some d)"
proof -
  note r = reachable_record [OF assms]
  have s: "NUL \<in> set (Dog_species w)"
    by (simp add: r(3) NUL_in_c_literal)
  show ?thesis
    using Dog_speak_eq [OF assms(2) r(1)] Dog_getSecret_eq [OF assms(2)]
      dog_print_eq [OF assms(2) r(1) s] assms(2)
    by simp
qed

theorem readers_leave_records_unchanged_witness:
  "\<exists>w d. run [New (Some (0, \<lambda>k. CHR ''?'')) (c_literal ''Rex'')] world0 = Inr w
      \<and> heap w 0 = Some d
      \<and> name (base d) = c_literal ''Rex'' @ replicate 46 NUL
      \<and> (\<exists>w'. Dog_speak 0 w = Inr w' \<and> heap w' = heap w \<and> heap w' 0 = Some d)
      \<and> (\<exists>w'. Dog_getSecret 0 w = Inr (secret d, w') \<and> heap w' = heap w \<and> heap w' 0 = Some d)
      \<and> (\<exists>w'. dog_print 0 w = Inr w' \<and> heap w' = heap w \<and> heap w' 0 = Some d)"
proof -
  have rex: "NUL \<in> set (c_literal ''Rex'') \<or> 49 \<le> length (c_literal ''Rex'')"
    by (simp add: NUL_in_c_literal)
  define d0 where "d0 =
    \<lparr>base = \<lparr>name = take 49 (cstr (c_literal ''Rex''))
                      @ replicate (49 - length (cstr (c_literal ''Rex''))) NUL @ [NUL]\<rparr>,
     secret = c_literal ''dog-secret'' @ drop 11 (secret (uninit (\<lambda>k. CHR ''?'')))\<rparr>"
  define w1 where "w1 = world0\<lparr>heap := (heap world0)(0 \<mapsto> d0)\<rparr>"
  have rn: "run [New (Some (0, \<lambda>k. CHR ''?'')) (c_literal ''Rex'')] world0 = Inr w1"
    by (simp add: w1_def d0_def Dog_new_Some [OF rex])
  have h: "heap w1 0 = Some d0"
    by (simp add: w1_def)
  have "cstr (c_literal ''Rex'') = ''Rex''"
    by (simp add: c_literal_def cstr_def NUL_def)
  then have n: "name (base d0) = c_literal ''Rex'' @ replicate 46 NUL"
    by (simp add: d0_def c_literal_def replicate_append_same)
  from rn h n readers_leave_records_unchanged [OF rn h] show ?thesis
    by blast
qed

text \<open>
  C10. Two names that agree on their first 49 characters: with the same answer from
  \<open>malloc\<close> and the same state, \<open>Dog_new\<close> returns the same pointer and the same state,
  so every later run of calls gives the same result and the same output; with any two
  answers and states, both constructions return a record, the two \<open>name\<close> fields are equal
  byte for byte (the first 49 characters and NUL padding) and the two secrets are the same
  text.
\<close>

theorem Dog_new_ignores_tail:
  assumes "NUL \<in> set src1" and "NUL \<in> set src2"
    and "take 49 (cstr src1) = take 49 (cstr src2)"
  shows "Dog_new a src1 w = Dog_new a src2 w
       \<and> (\<forall>cs. run (New a src1 # cs) w = run (New a src2 # cs) w)
       \<and> (\<exists>d1 d2. Dog_new (Some (p1, g1)) src1 w1 = Inr (Some p1, w1\<lparr>heap := (heap w1)(p1 \<mapsto> d1)\<rparr>)
             \<and> Dog_new (Some (p2, g2)) src2 w2 = Inr (Some p2, w2\<lparr>heap := (heap w2)(p2 \<mapsto> d2)\<rparr>)
             \<and> name (base d1) = name (base d2)
             \<and> name (base d1) = take 49 (cstr src1) @ replicate (50 - length (take 49 (cstr src1))) NUL
             \<and> cstr (secret d1) = ''dog-secret'' \<and> cstr (secret d2) = ''dog-secret'')"
proof (intro conjI allI)
  show e: "Dog_new a src1 w = Dog_new a src2 w"
    using assms by (rule Dog_new_same_prefix)
  fix cs
  show "run (New a src1 # cs) w = run (New a src2 # cs) w"
    by (simp add: e)
next
  let ?nm = "\<lambda>src. take 49 (cstr src) @ replicate (49 - length (cstr src)) NUL @ [NUL]"
  let ?d = "\<lambda>src g. \<lparr>base = \<lparr>name = ?nm src\<rparr>,
                       secret = c_literal ''dog-secret'' @ drop 11 (secret (uninit g))\<rparr>"
  have 1: "NUL \<in> set src1 \<or> 49 \<le> length src1" using assms(1) by simp
  have 2: "NUL \<in> set src2 \<or> 49 \<le> length src2" using assms(2) by simp
  have eq: "?nm src1 = ?nm src2"
    by (simp only: assms(3) same_padding [OF assms(3)])
  have "replicate (49 - length (cstr src1)) NUL @ [NUL]
          = replicate (Suc (49 - length (cstr src1))) NUL"
    by (simp add: replicate_append_same)
  also have "Suc (49 - length (cstr src1)) = 50 - length (take 49 (cstr src1))"
    by (cases "length (cstr src1) \<le> 49") simp_all
  finally have shape:
    "?nm src1 = take 49 (cstr src1) @ replicate (50 - length (take 49 (cstr src1))) NUL"
    by simp
  show "\<exists>d1 d2. Dog_new (Some (p1, g1)) src1 w1 = Inr (Some p1, w1\<lparr>heap := (heap w1)(p1 \<mapsto> d1)\<rparr>)
             \<and> Dog_new (Some (p2, g2)) src2 w2 = Inr (Some p2, w2\<lparr>heap := (heap w2)(p2 \<mapsto> d2)\<rparr>)
             \<and> name (base d1) = name (base d2)
             \<and> name (base d1) = take 49 (cstr src1) @ replicate (50 - length (take 49 (cstr src1))) NUL
             \<and> cstr (secret d1) = ''dog-secret'' \<and> cstr (secret d2) = ''dog-secret''"
  proof (intro exI conjI)
    show "Dog_new (Some (p1, g1)) src1 w1
            = Inr (Some p1, w1\<lparr>heap := (heap w1)(p1 \<mapsto> ?d src1 g1)\<rparr>)"
      by (rule Dog_new_Some [OF 1])
    show "Dog_new (Some (p2, g2)) src2 w2
            = Inr (Some p2, w2\<lparr>heap := (heap w2)(p2 \<mapsto> ?d src2 g2)\<rparr>)"
      by (rule Dog_new_Some [OF 2])
    show "name (base (?d src1 g1)) = name (base (?d src2 g2))"
      using eq by simp
    show "name (base (?d src1 g1))
            = take 49 (cstr src1) @ replicate (50 - length (take 49 (cstr src1))) NUL"
      using shape by simp
    show "cstr (secret (?d src1 g1)) = ''dog-secret''"
      by (simp add: cstr_secret_field)
    show "cstr (secret (?d src2 g2)) = ''dog-secret''"
      by (simp add: cstr_secret_field)
  qed
qed

theorem Dog_new_ignores_tail_witness:
  "Dog_new (Some (0, \<lambda>k. CHR ''?''))
       (c_literal ''ABCDEFGHIJKLMNOPQRSTUVWXYZabcdefghijklmnopqrstuvwxyz'') world0
     = Dog_new (Some (0, \<lambda>k. CHR ''?''))
         (c_literal ''ABCDEFGHIJKLMNOPQRSTUVWXYZabcdefghijklmnopqrstuvw0123456789'') world0
   \<and> run [New (Some (0, \<lambda>k. CHR ''?''))
              (c_literal ''ABCDEFGHIJKLMNOPQRSTUVWXYZabcdefghijklmnopqrstuvwxyz''),
            Speak 0, GetSecret 0, Print 0] world0
     = run [New (Some (0, \<lambda>k. CHR ''?''))
              (c_literal ''ABCDEFGHIJKLMNOPQRSTUVWXYZabcdefghijklmnopqrstuvw0123456789''),
            Speak 0, GetSecret 0, Print 0] world0
   \<and> (\<exists>d1 d2.
         Dog_new (Some (0, \<lambda>k. CHR ''?''))
             (c_literal ''ABCDEFGHIJKLMNOPQRSTUVWXYZabcdefghijklmnopqrstuvwxyz'') world0
           = Inr (Some 0, world0\<lparr>heap := (heap world0)(0 \<mapsto> d1)\<rparr>)
       \<and> Dog_new (Some (7, \<lambda>k. CHR ''!''))
             (c_literal ''ABCDEFGHIJKLMNOPQRSTUVWXYZabcdefghijklmnopqrstuvw0123456789'') world0
           = Inr (Some 7, world0\<lparr>heap := (heap world0)(7 \<mapsto> d2)\<rparr>)
       \<and> name (base d1) = name (base d2)
       \<and> name (base d1) = c_literal ''ABCDEFGHIJKLMNOPQRSTUVWXYZabcdefghijklmnopqrstuvw'')"
proof -
  let ?s1 = "c_literal ''ABCDEFGHIJKLMNOPQRSTUVWXYZabcdefghijklmnopqrstuvwxyz''"
  let ?s2 = "c_literal ''ABCDEFGHIJKLMNOPQRSTUVWXYZabcdefghijklmnopqrstuvw0123456789''"
  have n1: "NUL \<in> set ?s1" and n2: "NUL \<in> set ?s2"
    by (rule NUL_in_c_literal)+
  have t1: "take 49 (cstr ?s1) = ''ABCDEFGHIJKLMNOPQRSTUVWXYZabcdefghijklmnopqrstuvw''"
    by (simp add: c_literal_def cstr_def NUL_def)
  have t2: "take 49 (cstr ?s2) = ''ABCDEFGHIJKLMNOPQRSTUVWXYZabcdefghijklmnopqrstuvw''"
    by (simp add: c_literal_def cstr_def NUL_def)
  have pre: "take 49 (cstr ?s1) = take 49 (cstr ?s2)"
    by (simp only: t1 t2)
  have sh: "take 49 (cstr ?s1) @ replicate (50 - length (take 49 (cstr ?s1))) NUL
              = c_literal ''ABCDEFGHIJKLMNOPQRSTUVWXYZabcdefghijklmnopqrstuvw''"
    unfolding t1 by (simp add: c_literal_def)
  note same = Dog_new_ignores_tail [OF n1 n2 pre,
      of "Some (0, \<lambda>k. CHR ''?'')" world0 0 "\<lambda>k. CHR ''?''" world0 7 "\<lambda>k. CHR ''!''" world0]
  from same have a: "Dog_new (Some (0, \<lambda>k. CHR ''?'')) ?s1 world0
                       = Dog_new (Some (0, \<lambda>k. CHR ''?'')) ?s2 world0"
    by blast
  from same have b: "run [New (Some (0, \<lambda>k. CHR ''?'')) ?s1, Speak 0, GetSecret 0, Print 0] world0
                   = run [New (Some (0, \<lambda>k. CHR ''?'')) ?s2, Speak 0, GetSecret 0, Print 0] world0"
    by blast
  from same obtain d1 d2 where
    c: "Dog_new (Some (0, \<lambda>k. CHR ''?'')) ?s1 world0
          = Inr (Some 0, world0\<lparr>heap := (heap world0)(0 \<mapsto> d1)\<rparr>)"
       "Dog_new (Some (7, \<lambda>k. CHR ''!'')) ?s2 world0
          = Inr (Some 7, world0\<lparr>heap := (heap world0)(7 \<mapsto> d2)\<rparr>)"
       "name (base d1) = name (base d2)"
       "name (base d1) = take 49 (cstr ?s1) @ replicate (50 - length (take 49 (cstr ?s1))) NUL"
    by blast
  from c(4) have "name (base d1) = c_literal ''ABCDEFGHIJKLMNOPQRSTUVWXYZabcdefghijklmnopqrstuvw''"
    by (simp only: sh)
  with a b c(1,2,3) show ?thesis by blast
qed

end
